theory Spec2Isabelle
  imports Main
begin

section \<open>Values shared by the pipeline stages\<close>

text \<open>
  A Go \<^verbatim>\<open>string\<close> is a sequence of bytes, and \<^verbatim>\<open>len\<close> and slicing count bytes;
  \<^typ>\<open>string\<close> (a list of 8-bit characters) has the same reading.
\<close>

record Picture =
  URL :: string
  Caption :: string
  ID :: string

text \<open>
  A run-time panic of the Go runtime. The only panics the program can raise itself are
  slice index errors (\<^verbatim>\<open>index out of range [i] with length n\<close>).
\<close>

datatype panic = IndexOutOfRange nat nat

text \<open>
  Go \<^verbatim>\<open>error\<close> values: the two messages \<^verbatim>\<open>parseForPic\<close> builds with \<^verbatim>\<open>fmt.Errorf\<close>, the
  wrapped panic of its deferred handler, \<^verbatim>\<open>ctx.Err()\<close> of a cancelled context,
  \<^verbatim>\<open>os.ErrExist\<close>, and whatever a library call (net/http, html, json, mapstructure, os)
  reports. The nil error is \<open>None\<close>.
\<close>

datatype error =
    Errorf string
  | PanicError panic
  | Canceled
  | ErrExist
  | LibraryError string

text \<open>The outcome of a call that may panic instead of returning.\<close>

datatype 'a outcome = Returns 'a | Panics panic



definition worker :: nat where
  "worker = 5"

section \<open>parseForPic\<close>

text \<open>
  The document is seen through the two XPath queries only. \<open>scriptQuery\<close> is the result of
  \<^verbatim>\<open>htmlquery.QuerySelector(doc, picDataXpath)\<close>: \<open>None\<close> for a nil node,
  \<open>Some None\<close> for a node whose \<^verbatim>\<open>FirstChild\<close> is nil, \<open>Some (Some d)\<close> for a node whose first
  child holds the text \<open>d\<close>. \<open>notFoundQuery\<close> says whether the query for
  \<^verbatim>\<open>article[@id='error_page']\<close> finds a node.
\<close>

record html_Node =
  scriptQuery :: "string option option"
  notFoundQuery :: bool

text \<open>The anonymous struct \<^verbatim>\<open>data\<close> that \<^verbatim>\<open>mapstructure.Decode\<close> fills.\<close>

record images_entry =
  Image :: string
  ImageCaption :: string
  ImageID :: string

record data_entry =
  Images :: "images_entry list"

record stack_entry =
  Data :: "data_entry list"

record decoded =
  Stack :: "stack_entry list"

text \<open>
  The library calls of \<^verbatim>\<open>parseForPic\<close> are parameters: the regular expression match
  (\<open>[]\<close> is the nil result), \<^verbatim>\<open>json.Unmarshal\<close> into the map \<open>m\<close> (of type \<^typ>\<open>'m\<close>) and
  \<^verbatim>\<open>mapstructure.Decode\<close> of the map into \<^verbatim>\<open>data\<close>.
\<close>

record 'm parser_libs =
  FindSubmatch :: "string \<Rightarrow> string list"
  Unmarshal :: "string \<Rightarrow> error + 'm"
  Decode :: "'m \<Rightarrow> error + decoded"

text \<open>Indexing a slice: Go panics where the index is not below the length.\<close>

definition index :: "'a list \<Rightarrow> nat \<Rightarrow> panic + 'a" where
  "index xs i = (if i < length xs then Inr (xs ! i) else Inl (IndexOutOfRange i (length xs)))"

definition toPicture :: "images_entry \<Rightarrow> Picture" where
  "toPicture p = \<lparr>URL = Image p, Caption = ImageCaption p, ID = ImageID p\<rparr>"

text \<open>
  Lines 164 to 171: the range expression \<^verbatim>\<open>data.Stack[2].Data[0].Images\<close> is evaluated once,
  before the first iteration, and may panic; the loop appends one Picture per image, and
  the function returns \<^verbatim>\<open>pics, nil\<close>.
\<close>

definition collectPics :: "decoded \<Rightarrow> (Picture list \<times> error option) outcome" where
  "collectPics data =
     (case index (Stack data) 2 of
        Inl e \<Rightarrow> Panics e
      | Inr s \<Rightarrow>
          (case index (Data s) 0 of
             Inl e \<Rightarrow> Panics e
           | Inr d \<Rightarrow> Returns (map toPicture (Images d), None)))"

text \<open>
  Lines 159 to 163, the deferred closure. It runs when the function body is left. After a
  normal return \<^verbatim>\<open>recover()\<close> is nil and nothing changes. After a panic \<open>e\<close> it assigns
  \<^verbatim>\<open>fmt.Errorf("panic: %w", e)\<close> to the local variable \<^verbatim>\<open>err\<close> and the panic stops; no
  return statement has run and the results of \<^verbatim>\<open>parseForPic\<close> are unnamed, so the caller
  receives their zero values \<^verbatim>\<open>nil, nil\<close>. The first component is the final value of the
  local \<^verbatim>\<open>err\<close>, the second what the caller sees.
\<close>

definition deferredRecover ::
  "error option \<Rightarrow> (Picture list \<times> error option) outcome \<Rightarrow>
     error option \<times> (Picture list \<times> error option) outcome" where
  "deferredRecover err r =
     (case r of
        Returns v \<Rightarrow> (err, Returns v)
      | Panics e \<Rightarrow> (Some (PanicError e), Returns ([], None)))"

definition parseForPic :: "'m parser_libs \<Rightarrow> html_Node \<Rightarrow> (Picture list \<times> error option) outcome" where
  "parseForPic libs doc =
     (case (case scriptQuery doc of None \<Rightarrow> None | Some firstChild \<Rightarrow> firstChild) of
        None \<Rightarrow>
          (if notFoundQuery doc then Returns ([], None)
           else Returns ([], Some (Errorf ''cannot find html node for pictures'')))
      | Some scriptData \<Rightarrow>
          (let captures = FindSubmatch libs scriptData in
           if length captures < 2 then Returns ([], Some (Errorf ''unable to find regex match''))
           else
             (case Unmarshal libs (captures ! 1) of
                Inl err \<Rightarrow> Returns ([], Some err)
              | Inr m \<Rightarrow>
                  (case Decode libs m of
                     Inl err \<Rightarrow> Returns ([], Some err)
                   | Inr data \<Rightarrow> snd (deferredRecover None (collectPics data))))))"

section \<open>generateGalleryURLs\<close>

text \<open>\<^verbatim>\<open>fmt.Sprintf\<close> with the verb \<^verbatim>\<open>%d\<close>: the decimal digits of an \<^verbatim>\<open>int\<close>, with a minus sign
  for a negative one.\<close>

fun natDigits :: "nat \<Rightarrow> string" where
  "natDigits n =
     (if n < 10 then [''0123456789'' ! n]
      else natDigits (n div 10) @ [''0123456789'' ! (n mod 10)])"

declare natDigits.simps [simp del]

definition FormatInt :: "int \<Rightarrow> string" where
  "FormatInt i = (if i < 0 then CHR ''-'' # natDigits (nat (- i)) else natDigits (nat i))"

definition urlConcept :: "int \<Rightarrow> string" where
  "urlConcept chap =
     ''https://www.starwars.com/series/the-mandalorian/chapter-'' @ FormatInt chap
       @ ''-concept-art-gallery''"

definition urlConcept2 :: "int \<Rightarrow> string" where
  "urlConcept2 chap =
     ''https://www.starwars.com/chapter-'' @ FormatInt chap @ ''-concept-art-gallery''"

text \<open>
  The goroutine of \<^verbatim>\<open>generateGalleryURLs\<close> as a transition system. Its program counter is
  at the head of the \<^verbatim>\<open>for\<close> loop (the non-blocking \<^verbatim>\<open>select\<close> on \<^verbatim>\<open>ctx.Done()\<close>), at one of
  the two sends, or past the deferred \<^verbatim>\<open>close(urls)\<close>. \<open>chapters_left\<close> holds the elements of
  \<^verbatim>\<open>chapters\<close> not yet finished; at a send its head is \<^verbatim>\<open>chap\<close>. \<open>urls\<close> is the content of the
  channel \<^verbatim>\<open>make(chan string, 3)\<close>, oldest first. \<open>sent\<close> and \<open>delivered\<close> are history
  variables: every value pushed into the channel so far, and every value a consumer has
  taken out of it so far; no step reads them.
\<close>

datatype gen_pc = LoopHead | SendConcept | SendConcept2 | Finished

record gen_state =
  gen_pc :: gen_pc
  chapters_left :: "int list"
  urls :: "string list"
  urls_closed :: bool
  ctx_done :: bool
  sent :: "string list"
  delivered :: "string list"

definition urlsCap :: nat where
  "urlsCap = 3"

definition generateGalleryURLs :: "int list \<Rightarrow> gen_state" where
  "generateGalleryURLs chapters =
     \<lparr>gen_pc = LoopHead, chapters_left = chapters, urls = [], urls_closed = False,
      ctx_done = False, sent = [], delivered = []\<rparr>"

text \<open>
  One step of the goroutine; \<open>None\<close> where it cannot move (it is blocked in a send on a
  full channel, or it has finished). A send neither reads nor waits for \<open>ctx_done\<close>.
\<close>

definition gen_producer :: "gen_state \<Rightarrow> gen_state option" where
  "gen_producer st =
     (case gen_pc st of
        LoopHead \<Rightarrow>
          (case chapters_left st of
             [] \<Rightarrow> Some (st\<lparr>gen_pc := Finished, urls_closed := True\<rparr>)
           | chap # rest \<Rightarrow>
               if ctx_done st then Some (st\<lparr>gen_pc := Finished, urls_closed := True\<rparr>)
               else Some (st\<lparr>gen_pc := SendConcept\<rparr>))
      | SendConcept \<Rightarrow>
          (case chapters_left st of
             [] \<Rightarrow> None
           | chap # rest \<Rightarrow>
               if length (urls st) < urlsCap
               then Some (st\<lparr>gen_pc := SendConcept2, urls := urls st @ [urlConcept chap],
                              sent := sent st @ [urlConcept chap]\<rparr>)
               else None)
      | SendConcept2 \<Rightarrow>
          (case chapters_left st of
             [] \<Rightarrow> None
           | chap # rest \<Rightarrow>
               if length (urls st) < urlsCap
               then Some (st\<lparr>gen_pc := LoopHead, chapters_left := rest,
                              urls := urls st @ [urlConcept2 chap],
                              sent := sent st @ [urlConcept2 chap]\<rparr>)
               else None)
      | Finished \<Rightarrow> None)"

text \<open>
  The environment of the goroutine: a consumer takes the oldest value out of the channel,
  or the cancellation token fires.
\<close>

datatype gen_event = Producer | Receive | Cancel

definition gen_exec :: "gen_event \<Rightarrow> gen_state \<Rightarrow> gen_state option" where
  "gen_exec ev st =
     (case ev of
        Producer \<Rightarrow> gen_producer st
      | Receive \<Rightarrow>
          (case urls st of
             [] \<Rightarrow> None
           | u # us \<Rightarrow> Some (st\<lparr>urls := us, delivered := delivered st @ [u]\<rparr>))
      | Cancel \<Rightarrow> Some (st\<lparr>ctx_done := True\<rparr>))"

text \<open>A schedule is a list of events; it runs if each event is enabled in its turn.\<close>

fun gen_run :: "gen_event list \<Rightarrow> gen_state \<Rightarrow> gen_state option" where
  "gen_run [] st = Some st"
| "gen_run (ev # evs) st = (case gen_exec ev st of None \<Rightarrow> None | Some st' \<Rightarrow> gen_run evs st')"

text \<open>The sequence the specification describes: chapter by chapter, first template first.\<close>

definition chapterMajor :: "int list \<Rightarrow> string list" where
  "chapterMajor chapters = concat (map (\<lambda>chap. [urlConcept chap, urlConcept2 chap]) chapters)"

text \<open>The URLs the goroutine still owes for the chapter it is in.\<close>

definition owed :: "gen_state \<Rightarrow> nat" where
  "owed st = (case gen_pc st of SendConcept \<Rightarrow> 2 | SendConcept2 \<Rightarrow> 1 | _ \<Rightarrow> 0)"



section \<open>httpDo\<close>

text \<open>
  What \<^verbatim>\<open>httpDo\<close> returns, given which case its \<^verbatim>\<open>select\<close> takes and the value \<open>fres\<close> of
  \<^verbatim>\<open>f(http.DefaultClient.Do(req))\<close>. On both cases the value has been received from \<open>c\<close>,
  so the closure has run to its end.
\<close>

definition httpDo :: "bool \<Rightarrow> error option \<Rightarrow> error option" where
  "httpDo takesDone fres = (if takesDone then Some Canceled else fres)"

text \<open>
  The two threads of \<^verbatim>\<open>httpDo\<close> as a transition system. The caller is at the \<^verbatim>\<open>select\<close>,
  at the receive \<^verbatim>\<open><-c\<close> inside the \<^verbatim>\<open>ctx.Done()\<close> case, or has returned. The background
  goroutine makes one step: it sends the value of the closure on \<open>c\<close>, which has
  capacity 1 and is empty, so the send never blocks. \<open>ready\<close> and \<open>chosen\<close> are history
  variables: which cases were ready when the \<^verbatim>\<open>select\<close> chose (the \<^verbatim>\<open>ctx.Done()\<close> case, the
  case of \<open>c\<close>), and which case it took; no step reads them.
\<close>

datatype caller_pc = Select | AwaitBackground | Returned "error option"

datatype select_case = CaseDone | CaseResult

record httpDo_state =
  caller :: caller_pc
  background_done :: bool
  chan_c :: "error option list"
  ctxDone :: bool
  ready :: "(bool \<times> bool) option"
  chosen :: "select_case option"

definition httpDo_init :: httpDo_state where
  "httpDo_init =
     \<lparr>caller = Select, background_done = False, chan_c = [], ctxDone = False,
      ready = None, chosen = None\<rparr>"

text \<open>
  \<open>Caller pick\<close> is a step of the caller; where both cases of the \<^verbatim>\<open>select\<close> are ready Go
  picks one at random, and \<open>pick\<close> says whether it is the \<^verbatim>\<open>ctx.Done()\<close> case.
\<close>

datatype httpDo_event = Background | Fire | Caller bool

definition httpDo_caller :: "bool \<Rightarrow> httpDo_state \<Rightarrow> httpDo_state option" where
  "httpDo_caller pick st =
     (case caller st of
        Select \<Rightarrow>
          (case chan_c st of
             [] \<Rightarrow>
               if ctxDone st
               then Some (st\<lparr>caller := AwaitBackground, ready := Some (True, False),
                              chosen := Some CaseDone\<rparr>)
               else None
           | err # rest \<Rightarrow>
               if ctxDone st \<and> pick
               then Some (st\<lparr>caller := AwaitBackground, ready := Some (True, True),
                              chosen := Some CaseDone\<rparr>)
               else Some (st\<lparr>caller := Returned err, chan_c := rest,
                              ready := Some (ctxDone st, True), chosen := Some CaseResult\<rparr>))
      | AwaitBackground \<Rightarrow>
          (case chan_c st of
             [] \<Rightarrow> None
           | err # rest \<Rightarrow> Some (st\<lparr>caller := Returned (Some Canceled), chan_c := rest\<rparr>))
      | Returned r \<Rightarrow> None)"

definition httpDo_exec :: "error option \<Rightarrow> httpDo_event \<Rightarrow> httpDo_state \<Rightarrow> httpDo_state option" where
  "httpDo_exec fres ev st =
     (case ev of
        Background \<Rightarrow>
          if background_done st then None
          else Some (st\<lparr>background_done := True, chan_c := chan_c st @ [fres]\<rparr>)
      | Fire \<Rightarrow> Some (st\<lparr>ctxDone := True\<rparr>)
      | Caller pick \<Rightarrow> httpDo_caller pick st)"

fun httpDo_run :: "error option \<Rightarrow> httpDo_event list \<Rightarrow> httpDo_state \<Rightarrow> httpDo_state option" where
  "httpDo_run fres [] st = Some st"
| "httpDo_run fres (ev # evs) st =
     (case httpDo_exec fres ev st of None \<Rightarrow> None | Some st' \<Rightarrow> httpDo_run fres evs st')"

section \<open>The environment and the state of a stage\<close>

text \<open>
  A response body: the bytes that arrive, and the read error that ends them, if any.
\<close>

type_synonym body = "string \<times> error option"

text \<open>
  What the outside world answers. \<open>NewRequest\<close> and \<open>NewRequestWithContext\<close> are the
  errors of building a GET request for a URL; \<open>Do\<close> is \<^verbatim>\<open>http.DefaultClient.Do\<close> for a request
  to a URL; \<open>Parse\<close> is \<^verbatim>\<open>html.Parse\<close>; \<open>Mkdir\<close> is the result of \<^verbatim>\<open>os.Mkdir\<close> in the
  \<open>i\<close>-th call of \<^verbatim>\<open>downloadPic\<close>; \<open>Create\<close> is the error of \<^verbatim>\<open>os.Create\<close> for a file
  name; \<open>Copy\<close> is \<^verbatim>\<open>io.Copy\<close> into the file: the bytes written and its error.
  \<open>selectsDone k\<close> says whether the \<^verbatim>\<open>select\<close> of the stage's \<open>k\<close>-th call of \<^verbatim>\<open>httpDo\<close>
  takes the \<^verbatim>\<open>ctx.Done()\<close> case, and \<open>ctxPoll k\<close> whether the stage's \<open>k\<close>-th non-blocking
  poll of \<^verbatim>\<open>ctx.Done()\<close> finds the token fired.
\<close>

record 'm env =
  libs :: "'m parser_libs"
  NewRequest :: "string \<Rightarrow> error option"
  NewRequestWithContext :: "string \<Rightarrow> error option"
  Do :: "string \<Rightarrow> error + body"
  Parse :: "body \<Rightarrow> error + html_Node"
  Mkdir :: "nat \<Rightarrow> error option"
  Create :: "string \<Rightarrow> error option"
  Copy :: "body \<Rightarrow> string \<times> error option"
  selectsDone :: "nat \<Rightarrow> bool"
  ctxPoll :: "nat \<Rightarrow> bool"

text \<open>One constructor for each \<^verbatim>\<open>log.Printf\<close> of the program, with its arguments.\<close>

datatype log_entry =
    ErrorCreatingRequest error
  | ErrorDownloadingGalleryHtml error string
  | UnableToCreateDownloadDirectory error
  | UnableToCreateFile error
  | UnableToCreateDownloadRequest error
  | Downloaded string
  | UnableToDownloadFile error

fun isErrorEntry :: "log_entry \<Rightarrow> bool" where
  "isErrorEntry (Downloaded fname) = False"
| "isErrorEntry entry = True"

text \<open>
  The state a stage works on: the lines it has logged, every Picture it has pushed into
  \<^verbatim>\<open>picChan\<close> so far, the files on disk by name, and how many \<^verbatim>\<open>httpDo\<close> calls and polls of
  the token it has made.
\<close>

record pstate =
  logged :: "log_entry list"
  picChan :: "Picture list"
  files :: "string \<rightharpoonup> string"
  calls :: nat
  polls :: nat

section \<open>downloadGalleryHTML\<close>

text \<open>
  The closure handed to \<^verbatim>\<open>httpDo\<close> (lines 87 to 104), with the response of \<^verbatim>\<open>Do\<close> already
  applied. Each push \<^verbatim>\<open>picChan <- pic\<close> is taken as completing here: a consumer drains the
  channel (the push loop beside the channel of ten slots is the transition system of the
  next section). A panic of \<^verbatim>\<open>parseForPic\<close> would leave the closure as a panic.
\<close>

definition galleryClosure :: "'m env \<Rightarrow> string \<Rightarrow> pstate \<Rightarrow> (pstate \<times> error option) outcome" where
  "galleryClosure env url st =
     (case Do env url of
        Inl err \<Rightarrow> Returns (st, Some err)
      | Inr respBody \<Rightarrow>
          (case Parse env respBody of
             Inl err \<Rightarrow> Returns (st, Some err)
           | Inr doc \<Rightarrow>
               (case parseForPic (libs env) doc of
                  Panics e \<Rightarrow> Panics e
                | Returns (pics, Some err) \<Rightarrow> Returns (st, Some err)
                | Returns (pics, None) \<Rightarrow> Returns (st\<lparr>picChan := picChan st @ pics\<rparr>, None))))"

text \<open>The body of the loop over \<^verbatim>\<open>urls\<close> (lines 82 to 108), for one URL.\<close>

definition fetchURL :: "'m env \<Rightarrow> string \<Rightarrow> pstate \<Rightarrow> pstate outcome" where
  "fetchURL env url st =
     (case NewRequest env url of
        Some err \<Rightarrow> Returns (st\<lparr>logged := logged st @ [ErrorCreatingRequest err]\<rparr>)
      | None \<Rightarrow>
          (case galleryClosure env url st of
             Panics e \<Rightarrow> Panics e
           | Returns (st1, fres) \<Rightarrow>
               (let st2 = st1\<lparr>calls := Suc (calls st1)\<rparr> in
                case httpDo (selectsDone env (calls st)) fres of
                  Some err \<Rightarrow>
                    Returns (st2\<lparr>logged := logged st2 @ [ErrorDownloadingGalleryHtml err url]\<rparr>)
                | None \<Rightarrow> Returns st2)))"

text \<open>The loop \<^verbatim>\<open>for url := range urls\<close> over the URLs the channel delivers.\<close>

fun downloadGalleryHTML :: "'m env \<Rightarrow> string list \<Rightarrow> pstate \<Rightarrow> pstate outcome" where
  "downloadGalleryHTML env [] st = Returns st"
| "downloadGalleryHTML env (url # rest) st =
     (case fetchURL env url st of
        Panics e \<Rightarrow> Panics e
      | Returns st' \<Rightarrow> downloadGalleryHTML env rest st')"

section \<open>The push into picChan\<close>

text \<open>
  The loop of lines 100 to 102 inside the closure,
  \<^verbatim>\<open>for _, pic := range pics { picChan <- pic }\<close>, as a transition system beside the channel
  \<^verbatim>\<open>make(chan Picture, 10)\<close>. \<open>galleryClosure\<close> gives the outcome of the loop when every push
  goes through; here the channel has its capacity and a push may have to wait.
  \<open>to_push\<close> holds the Pictures of the page not yet pushed, \<open>buffered\<close> the content of the
  channel, oldest first, and \<open>token_fired\<close> says whether \<^verbatim>\<open>ctx.Done()\<close> is closed. \<open>pushed\<close>
  and \<open>taken\<close> are history variables: every Picture pushed so far, and every Picture a
  worker has taken out so far; no step reads them.
\<close>

record push_state =
  to_push :: "Picture list"
  buffered :: "Picture list"
  token_fired :: bool
  pushed :: "Picture list"
  taken :: "Picture list"

definition picChanCap :: nat where
  "picChanCap = 10"

definition push_init :: "Picture list \<Rightarrow> Picture list \<Rightarrow> push_state" where
  "push_init pics inChannel =
     \<lparr>to_push = pics, buffered = inChannel, token_fired = False, pushed = [], taken = []\<rparr>"

text \<open>
  One step of the loop; \<open>None\<close> where it cannot move (the send waits on a full channel, or
  the loop is over). There is no \<^verbatim>\<open>select\<close> in the loop: the step does not read
  \<open>token_fired\<close>.
\<close>

definition push_step :: "push_state \<Rightarrow> push_state option" where
  "push_step st =
     (case to_push st of
        [] \<Rightarrow> None
      | pic # rest \<Rightarrow>
          if length (buffered st) < picChanCap
          then Some (st\<lparr>to_push := rest, buffered := buffered st @ [pic],
                         pushed := pushed st @ [pic]\<rparr>)
          else None)"

datatype push_event = Push | Take | Interrupt

definition push_exec :: "push_event \<Rightarrow> push_state \<Rightarrow> push_state option" where
  "push_exec ev st =
     (case ev of
        Push \<Rightarrow> push_step st
      | Take \<Rightarrow>
          (case buffered st of
             [] \<Rightarrow> None
           | pic # rest \<Rightarrow> Some (st\<lparr>buffered := rest, taken := taken st @ [pic]\<rparr>))
      | Interrupt \<Rightarrow> Some (st\<lparr>token_fired := True\<rparr>))"

fun push_run :: "push_event list \<Rightarrow> push_state \<Rightarrow> push_state option" where
  "push_run [] st = Some st"
| "push_run (ev # evs) st =
     (case push_exec ev st of None \<Rightarrow> None | Some st' \<Rightarrow> push_run evs st')"

section \<open>downloadPic\<close>

text \<open>\<^verbatim>\<open>os.PathSeparator\<close>, on a system where it is the slash.\<close>

definition PathSeparator :: char where
  "PathSeparator = CHR ''/''"

text \<open>Lines 189 to 191: the Picture \<open>p\<close> is the loop's own copy.\<close>

definition truncateCaption :: "Picture \<Rightarrow> Picture" where
  "truncateCaption p =
     (if length (Caption p) > 64 then p\<lparr>Caption := take (64 + 1) (Caption p)\<rparr> else p)"

text \<open>Line 192, \<^verbatim>\<open>fmt.Sprintf("download%c%s_%s.jpeg", os.PathSeparator, p.Caption, p.ID)\<close>.\<close>

definition fname :: "Picture \<Rightarrow> string" where
  "fname p = ''download'' @ [PathSeparator] @ Caption p @ ''_'' @ ID p @ ''.jpeg''"

text \<open>The name of the file a Picture taken from the channel is written to.\<close>

definition fileName :: "Picture \<Rightarrow> string" where
  "fileName p = fname (truncateCaption p)"

text \<open>
  The closure handed to \<^verbatim>\<open>httpDo\<close> (lines 205 to 217): whatever \<^verbatim>\<open>io.Copy\<close> wrote is in the
  file, also when it fails.
\<close>

definition copyClosure :: "'m env \<Rightarrow> string \<Rightarrow> string \<Rightarrow> pstate \<Rightarrow> pstate \<times> error option" where
  "copyClosure env name url st =
     (case Do env url of
        Inl err \<Rightarrow> (st, Some err)
      | Inr respBody \<Rightarrow>
          (case Copy env respBody of
             (written, Some err) \<Rightarrow> (st\<lparr>files := (files st)(name \<mapsto> written)\<rparr>, Some err)
           | (written, None) \<Rightarrow>
               (st\<lparr>files := (files st)(name \<mapsto> written),
                   logged := logged st @ [Downloaded name]\<rparr>, None)))"

text \<open>
  The function literal of lines 188 to 221, for one Picture. \<^verbatim>\<open>os.Create\<close> leaves an empty
  file under the name.
\<close>

definition downloadOne :: "'m env \<Rightarrow> Picture \<Rightarrow> pstate \<Rightarrow> pstate" where
  "downloadOne env p0 st =
     (let p = truncateCaption p0; name = fname p in
      case Create env name of
        Some err \<Rightarrow> st\<lparr>logged := logged st @ [UnableToCreateFile err]\<rparr>
      | None \<Rightarrow>
          (let st1 = st\<lparr>files := (files st)(name \<mapsto> [])\<rparr> in
           case NewRequestWithContext env (URL p) of
             Some err \<Rightarrow> st1\<lparr>logged := logged st1 @ [UnableToCreateDownloadRequest err]\<rparr>
           | None \<Rightarrow>
               (case copyClosure env name (URL p) st1 of
                  (st2, fres) \<Rightarrow>
                    (let st3 = st2\<lparr>calls := Suc (calls st2)\<rparr> in
                     case httpDo (selectsDone env (calls st)) fres of
                       Some err \<Rightarrow> st3\<lparr>logged := logged st3 @ [UnableToDownloadFile err]\<rparr>
                     | None \<Rightarrow> st3))))"

text \<open>
  The result of one call of \<^verbatim>\<open>downloadPic\<close>: the state, the Pictures this call took from the
  channel, and the Pictures it left for whoever receives next.
\<close>

record worker_result =
  after :: pstate
  received :: "Picture list"
  remaining :: "Picture list"

text \<open>
  The loop \<^verbatim>\<open>for p := range pics\<close> (lines 182 to 222) over the Pictures the channel still
  delivers before it is closed. A Picture received when the token has fired is dropped.
\<close>

fun downloadPic_loop :: "'m env \<Rightarrow> Picture list \<Rightarrow> Picture list \<Rightarrow> pstate \<Rightarrow> worker_result" where
  "downloadPic_loop env got [] st = \<lparr>after = st, received = got, remaining = []\<rparr>"
| "downloadPic_loop env got (p # rest) st =
     (if ctxPoll env (polls st)
      then \<lparr>after = st\<lparr>polls := Suc (polls st)\<rparr>, received = got @ [p], remaining = rest\<rparr>
      else downloadPic_loop env (got @ [p]) rest (downloadOne env p (st\<lparr>polls := Suc (polls st)\<rparr>)))"

text \<open>\<^verbatim>\<open>downloadPic\<close>, called for the \<open>i\<close>-th time.\<close>

definition downloadPic :: "'m env \<Rightarrow> nat \<Rightarrow> Picture list \<Rightarrow> pstate \<Rightarrow> worker_result" where
  "downloadPic env i pics st =
     (case Mkdir env i of
        None \<Rightarrow> downloadPic_loop env [] pics st
      | Some err \<Rightarrow>
          if err \<noteq> ErrExist
          then \<lparr>after = st\<lparr>logged := logged st @ [UnableToCreateDownloadDirectory err]\<rparr>,
                received = [], remaining = pics\<rparr>
          else downloadPic_loop env [] pics st)"

text \<open>
  Lines 46 to 48 of \<^verbatim>\<open>main\<close>: the loop calls \<^verbatim>\<open>downloadPic\<close> directly (there is no \<^verbatim>\<open>go\<close>
  statement), so call \<open>i + 1\<close> starts when call \<open>i\<close> has returned. The result lists what
  each call received, in the order of the calls.
\<close>

fun mainWorkers :: "'m env \<Rightarrow> nat \<Rightarrow> nat \<Rightarrow> Picture list \<Rightarrow> pstate \<Rightarrow> Picture list list \<times> pstate" where
  "mainWorkers env i 0 pics st = ([], st)"
| "mainWorkers env i (Suc n) pics st =
     (let r = downloadPic env i pics st;
          (rs, st') = mainWorkers env (Suc i) n (remaining r) (after r)
      in (received r # rs, st'))"

text \<open>
  Lines 44 to 49 of \<^verbatim>\<open>main\<close>: \<^verbatim>\<open>worker\<close> calls, fed with the Pictures \<^verbatim>\<open>pics\<close> delivers.
\<close>

definition mainPool :: "'m env \<Rightarrow> Picture list \<Rightarrow> pstate \<Rightarrow> Picture list list \<times> pstate" where
  "mainPool env pics st = mainWorkers env 0 worker pics st"

section \<open>Invariants\<close>





text \<open>
  States of the goroutine that make sense: inside a send there is a chapter, and past the
  end the channel is closed.
\<close>

definition gen_wf :: "gen_state \<Rightarrow> bool" where
  "gen_wf st =
     ((gen_pc st = SendConcept \<or> gen_pc st = SendConcept2 \<longrightarrow> chapters_left st \<noteq> []) \<and>
      (gen_pc st = Finished \<longrightarrow> urls_closed st))"

text \<open>
  What holds of \<^verbatim>\<open>httpDo\<close> at every moment: the value of the closure is in \<open>c\<close> from the
  moment the background goroutine is done until the caller receives it, and a caller
  that has returned has received it.
\<close>

definition httpDo_inv :: "error option \<Rightarrow> httpDo_state \<Rightarrow> bool" where
  "httpDo_inv fres st =
     ((case caller st of
         Select \<Rightarrow>
           ready st = None \<and> chosen st = None \<and>
           chan_c st = (if background_done st then [fres] else [])
       | AwaitBackground \<Rightarrow>
           chosen st = Some CaseDone \<and> ready st \<noteq> None \<and>
           chan_c st = (if background_done st then [fres] else [])
       | Returned r \<Rightarrow>
           background_done st \<and> chan_c st = [] \<and> chosen st \<noteq> None \<and>
           r = httpDo (chosen st = Some CaseDone) fres) \<and>
      (ready st = Some (True, False) \<longrightarrow> chosen st = Some CaseDone) \<and>
      (ready st = Some (False, True) \<longrightarrow> chosen st = Some CaseResult))"

section \<open>Sample inputs\<close>

text \<open>
  Concrete inputs on which the theorems below are evaluated. \<open>plainLibs\<close> decodes every
  script to the data of the JSON text \<^verbatim>\<open>{"stack": []}\<close>; \<open>plainEnv\<close> is a world in which
  every request succeeds, every page is \<open>scriptDoc\<close>, the download directory is created by
  the first call of \<^verbatim>\<open>downloadPic\<close> and exists afterwards, and the token never fires.
\<close>

definition plainLibs :: "string parser_libs" where
  "plainLibs =
     \<lparr>FindSubmatch = (\<lambda>scriptData. [scriptData, scriptData]),
      Unmarshal = (\<lambda>capture. Inr capture),
      Decode = (\<lambda>m. Inr \<lparr>Stack = []\<rparr>)\<rparr>"

definition scriptDoc :: html_Node where
  "scriptDoc = \<lparr>scriptQuery = Some (Some ''this.Grill?Grill.burger={}:(function()''),
                notFoundQuery = False\<rparr>"

definition errorPageDoc :: html_Node where
  "errorPageDoc = \<lparr>scriptQuery = None, notFoundQuery = True\<rparr>"

definition plainEnv :: "string env" where
  "plainEnv =
     \<lparr>libs = plainLibs,
      NewRequest = (\<lambda>url. None),
      NewRequestWithContext = (\<lambda>url. None),
      Do = (\<lambda>url. Inr (''bytes'', None)),
      Parse = (\<lambda>respBody. Inr scriptDoc),
      Mkdir = (\<lambda>i. if i = 0 then None else Some ErrExist),
      Create = (\<lambda>name. None),
      Copy = (\<lambda>respBody. respBody),
      selectsDone = (\<lambda>k. False),
      ctxPoll = (\<lambda>k. False)\<rparr>"

definition startState :: pstate where
  "startState = \<lparr>logged = [], picChan = [], files = Map.empty, calls = 0, polls = 0\<rparr>"

definition longCaptionPic :: Picture where
  "longCaptionPic = \<lparr>URL = ''u'', Caption = replicate 66 (CHR ''a''), ID = ''7''\<rparr>"

definition picA :: Picture where
  "picA = \<lparr>URL = ''a'', Caption = ''The Child'', ID = ''1''\<rparr>"

definition picB :: Picture where
  "picB = \<lparr>URL = ''b'', Caption = ''The Child'', ID = ''2''\<rparr>"

definition picC :: Picture where
  "picC = \<lparr>URL = ''c'', Caption = ''Razor Crest'', ID = ''3''\<rparr>"

text \<open>
  \<open>errorPageEnv\<close> answers every request with a page that signals missing content,
  \<open>cancelledEnv\<close> is the same world with the token fired while each closure runs, and
  \<open>noScriptEnv\<close> answers with a page that has neither the script node nor the error page.
\<close>

definition errorPageEnv :: "string env" where
  "errorPageEnv = plainEnv\<lparr>Parse := (\<lambda>respBody. Inr errorPageDoc)\<rparr>"

definition cancelledEnv :: "string env" where
  "cancelledEnv = errorPageEnv\<lparr>selectsDone := (\<lambda>k. True)\<rparr>"

definition noScriptEnv :: "string env" where
  "noScriptEnv =
     plainEnv\<lparr>Parse := (\<lambda>respBody. Inr \<lparr>scriptQuery = None, notFoundQuery = False\<rparr>)\<rparr>"

text \<open>
  The goroutine of \<^verbatim>\<open>generateGalleryURLs\<close> for the chapters 1 and 2, inside the second send
  of chapter 2 with three URLs in the channel, and the token fired.
\<close>

definition stuckState :: gen_state where
  "stuckState =
     \<lparr>gen_pc = SendConcept2, chapters_left = [2],
      urls = [urlConcept 1, urlConcept2 1, urlConcept 2], urls_closed = False,
      ctx_done = True, sent = [urlConcept 1, urlConcept2 1, urlConcept 2], delivered = []\<rparr>"

text \<open>
  The closure of the fetch stage with one Picture left to push, ten Pictures in the
  channel, and the token fired.
\<close>

definition fullPicChan :: push_state where
  "fullPicChan =
     \<lparr>to_push = [picC], buffered = replicate 10 picA, token_fired = True,
      pushed = replicate 10 picA, taken = []\<rparr>"

section \<open>File names\<close>

lemma truncateCaption_long:
  "64 < length (Caption p) \<Longrightarrow> Caption (truncateCaption p) = take 65 (Caption p)"
  by (simp add: truncateCaption_def)

lemma truncateCaption_short:
  "length (Caption p) \<le> 64 \<Longrightarrow> truncateCaption p = p"
  by (simp add: truncateCaption_def)


lemma truncateCaption_length:
  "length (Caption (truncateCaption p)) = min 65 (length (Caption p))"
  by (simp add: truncateCaption_def)

text \<open>
  Claim C3 says that a Caption longer than 64 bytes is cut to exactly 64 bytes. The
  guard of line 189 is \<^verbatim>\<open>len(p.Caption) > 64\<close>, but the slice of line 190 is
  \<^verbatim>\<open>p.Caption[:64+1]\<close>: a Caption of 66 bytes is cut to 65 bytes, and 65 bytes is what the
  file name carries.
\<close>

theorem long_caption_keeps_65_bytes:
  "Caption (truncateCaption longCaptionPic) = replicate 65 (CHR ''a'') \<and>
   length (Caption (truncateCaption longCaptionPic)) = 65 \<and>
   fileName longCaptionPic = ''download/'' @ replicate 65 (CHR ''a'') @ ''_7.jpeg''"
  by (simp add: longCaptionPic_def fileName_def fname_def truncateCaption_def PathSeparator_def)







section \<open>The parser boundary\<close>

lemma parseForPic_never_panics: "parseForPic pl doc \<noteq> Panics e"
  by (auto simp: parseForPic_def deferredRecover_def Let_def
      split: option.splits sum.splits outcome.splits)

lemma collectPics_lacking_shape:
  assumes "length (Stack data) \<le> 2 \<or> Data (Stack data ! 2) = []"
  shows "\<exists>e. collectPics data = Panics e"
  using assms by (auto simp: collectPics_def index_def)

lemma parseForPic_decoded:
  assumes "scriptQuery doc = Some (Some scriptData)"
    and "2 \<le> length (FindSubmatch pl scriptData)"
    and "Unmarshal pl (FindSubmatch pl scriptData ! 1) = Inr m"
    and "Decode pl m = Inr data"
  shows "parseForPic pl doc = snd (deferredRecover None (collectPics data))"
  using assms by (simp add: parseForPic_def Let_def)

lemma parseForPic_error_page:
  assumes "scriptQuery doc = None \<or> scriptQuery doc = Some None" and "notFoundQuery doc"
  shows "parseForPic pl doc = Returns ([], None)"
  using assms by (auto simp: parseForPic_def)

text \<open>
  Claim C4 says that a document whose decoded data lacks the nested shape makes
  \<^verbatim>\<open>parseForPic\<close> return a non-nil error. On the data of \<^verbatim>\<open>{"stack": []}\<close> the index
  \<^verbatim>\<open>data.Stack[2]\<close> panics, the deferred closure recovers and stores the error in the local
  \<^verbatim>\<open>err\<close>, and the caller receives \<^verbatim>\<open>nil, nil\<close>: no error at all.
\<close>

theorem shape_failure_returns_nil_error:
  "collectPics \<lparr>Stack = []\<rparr> = Panics (IndexOutOfRange 2 0) \<and>
   deferredRecover None (collectPics \<lparr>Stack = []\<rparr>)
     = (Some (PanicError (IndexOutOfRange 2 0)), Returns ([], None)) \<and>
   parseForPic plainLibs scriptDoc = Returns ([], None)"
  by (simp add: parseForPic_def plainLibs_def scriptDoc_def collectPics_def index_def
      deferredRecover_def)

text \<open>
  Claim C10: where the script is found, matched and decoded, and the decoded data has no
  stack index 2 or no data index 0, the range expression panics, the deferred closure
  stores the recovered error in the local variable only, and \<^verbatim>\<open>parseForPic\<close> returns a nil
  list with a nil error, which is what it returns for a page that signals missing
  content. No input at all makes \<^verbatim>\<open>parseForPic\<close> panic.
\<close>

theorem shape_failure_looks_like_not_found:
  assumes "scriptQuery doc = Some (Some scriptData)"
    and "2 \<le> length (FindSubmatch pl scriptData)"
    and "Unmarshal pl (FindSubmatch pl scriptData ! 1) = Inr m"
    and "Decode pl m = Inr data"
    and "length (Stack data) \<le> 2 \<or> Data (Stack data ! 2) = []"
  shows "(\<exists>e. collectPics data = Panics e \<and>
              fst (deferredRecover None (collectPics data)) = Some (PanicError e)) \<and>
         parseForPic pl doc = Returns ([], None) \<and>
         parseForPic pl doc = parseForPic pl errorPageDoc \<and>
         (\<forall>pl' doc' e'. parseForPic (pl' :: 'a parser_libs) doc' \<noteq> Panics e')"
proof -
  obtain e where e: "collectPics data = Panics e"
    using collectPics_lacking_shape [OF assms(5)] by blast
  have local_only: "fst (deferredRecover None (collectPics data)) = Some (PanicError e)"
    by (simp add: e deferredRecover_def)
  have result: "parseForPic pl doc = Returns ([], None)"
    by (simp add: parseForPic_decoded [OF assms(1-4)] e deferredRecover_def)
  have same: "parseForPic pl errorPageDoc = Returns ([], None)"
    by (rule parseForPic_error_page) (simp_all add: errorPageDoc_def)
  from e local_only result same parseForPic_never_panics show ?thesis by metis
qed

theorem shape_failure_looks_like_not_found_witness:
  "scriptQuery scriptDoc = Some (Some ''this.Grill?Grill.burger={}:(function()'') \<and>
   Decode plainLibs ''anything'' = Inr \<lparr>Stack = []\<rparr> \<and>
   parseForPic plainLibs scriptDoc = Returns ([], None) \<and>
   parseForPic plainLibs scriptDoc = parseForPic plainLibs errorPageDoc"
proof -
  have a: "scriptQuery scriptDoc = Some (Some ''this.Grill?Grill.burger={}:(function()'')"
    by (simp add: scriptDoc_def)
  have b: "2 \<le> length (FindSubmatch plainLibs ''this.Grill?Grill.burger={}:(function()'')"
    by (simp add: plainLibs_def)
  have c: "Unmarshal plainLibs (FindSubmatch plainLibs ''this.Grill?Grill.burger={}:(function()'' ! 1)
             = Inr ''this.Grill?Grill.burger={}:(function()''"
    by (simp add: plainLibs_def)
  have d: "Decode plainLibs m = Inr \<lparr>Stack = []\<rparr>" for m
    by (simp add: plainLibs_def)
  have e: "length (Stack \<lparr>Stack = []\<rparr>) \<le> 2 \<or> Data (Stack \<lparr>Stack = []\<rparr> ! 2) = []"
    by simp
  from shape_failure_looks_like_not_found [OF a b c d e] a d show ?thesis by blast
qed

section \<open>The fetch stage\<close>

lemma galleryClosure_returns: "\<exists>st' fres. galleryClosure env url st = Returns (st', fres)"
  using parseForPic_never_panics [of "libs env"]
  by (auto simp: galleryClosure_def split: sum.splits outcome.splits option.splits prod.splits)

lemma fetchURL_returns: "\<exists>st'. fetchURL env url st = Returns st'"
  using galleryClosure_returns [of env url st]
  by (auto simp: fetchURL_def Let_def split: option.splits)

lemma downloadGalleryHTML_returns: "\<exists>st'. downloadGalleryHTML env us st = Returns st'"
proof (induction us arbitrary: st)
  case Nil
  show ?case by simp
next
  case (Cons url rest)
  obtain st1 where "fetchURL env url st = Returns st1"
    using fetchURL_returns by blast
  with Cons.IH [of st1] show ?case by simp
qed

lemma downloadGalleryHTML_append:
  "downloadGalleryHTML env before st0 = Returns st \<Longrightarrow>
   downloadGalleryHTML env (before @ rest) st0 = downloadGalleryHTML env rest st"
proof (induction before arbitrary: st0)
  case Nil
  then show ?case by simp
next
  case (Cons url before)
  then show ?case by (auto split: outcome.splits)
qed

lemma fetchURL_parse_error:
  assumes "NewRequest env url = None" and "Do env url = Inr respBody"
    and "Parse env respBody = Inr doc"
    and "parseForPic (libs env) doc = Returns (pics, Some err)"
  shows "fetchURL env url st =
     Returns (st\<lparr>calls := Suc (calls st),
                 logged := logged st @
                   [ErrorDownloadingGalleryHtml
                      (if selectsDone env (calls st) then Canceled else err) url]\<rparr>)"
  using assms by (simp add: fetchURL_def galleryClosure_def httpDo_def)

lemma fetchURL_no_pictures:
  assumes "NewRequest env url = None" and "Do env url = Inr respBody"
    and "Parse env respBody = Inr doc"
    and "parseForPic (libs env) doc = Returns ([], None)"
  shows "fetchURL env url st =
     Returns (st\<lparr>calls := Suc (calls st),
                 logged := logged st @
                   (if selectsDone env (calls st)
                    then [ErrorDownloadingGalleryHtml Canceled url] else [])\<rparr>)"
  using assms by (simp add: fetchURL_def galleryClosure_def httpDo_def)

text \<open>
  Claim C6: take a URL anywhere in the stream (after the URLs \<open>before\<close>, followed by the
  URLs \<open>rest\<close>) whose request is built, whose fetch succeeds and whose page makes
  \<^verbatim>\<open>parseForPic\<close> return an error. The stage reaches the URL, pushes no Picture for it, logs
  exactly one line for it, an error line (with the parse error, or with \<^verbatim>\<open>ctx.Err()\<close> where
  \<^verbatim>\<open>httpDo\<close> took the cancellation case), and goes on with the rest of the stream, which it
  processes to the end.
\<close>

theorem parse_error_logs_once_and_continues:
  assumes "NewRequest env url = None" and "Do env url = Inr respBody"
    and "Parse env respBody = Inr doc"
    and "parseForPic (libs env) doc = Returns (pics, Some err)"
  shows "\<exists>st st' e. downloadGalleryHTML env before st0 = Returns st \<and>
           fetchURL env url st = Returns st' \<and>
           picChan st' = picChan st \<and>
           logged st' = logged st @ [ErrorDownloadingGalleryHtml e url] \<and>
           isErrorEntry (ErrorDownloadingGalleryHtml e url) \<and>
           (e = err \<or> e = Canceled) \<and>
           downloadGalleryHTML env (before @ url # rest) st0 = downloadGalleryHTML env rest st' \<and>
           (\<exists>final. downloadGalleryHTML env rest st' = Returns final)"
proof -
  obtain st where st: "downloadGalleryHTML env before st0 = Returns st"
    using downloadGalleryHTML_returns by blast
  define e where "e = (if selectsDone env (calls st) then Canceled else err)"
  define st' where "st' = st\<lparr>calls := Suc (calls st),
                 logged := logged st @ [ErrorDownloadingGalleryHtml e url]\<rparr>"
  have step: "fetchURL env url st = Returns st'"
    unfolding st'_def e_def by (rule fetchURL_parse_error [OF assms])
  have "downloadGalleryHTML env (before @ url # rest) st0 = downloadGalleryHTML env (url # rest) st"
    by (rule downloadGalleryHTML_append [OF st])
  also have "\<dots> = downloadGalleryHTML env rest st'"
    by (simp add: step)
  finally have cont:
    "downloadGalleryHTML env (before @ url # rest) st0 = downloadGalleryHTML env rest st'" .
  obtain final where "downloadGalleryHTML env rest st' = Returns final"
    using downloadGalleryHTML_returns by blast
  moreover have "picChan st' = picChan st"
    and "logged st' = logged st @ [ErrorDownloadingGalleryHtml e url]"
    by (simp_all add: st'_def)
  moreover have "e = err \<or> e = Canceled" by (simp add: e_def)
  ultimately show ?thesis using st step cont by auto
qed

theorem parse_error_logs_once_and_continues_witness:
  "parseForPic (libs noScriptEnv) \<lparr>scriptQuery = None, notFoundQuery = False\<rparr>
     = Returns ([], Some (Errorf ''cannot find html node for pictures'')) \<and>
   (\<exists>st'. fetchURL noScriptEnv ''u2'' (startState\<lparr>calls := 1\<rparr>) = Returns st' \<and>
      picChan st' = [] \<and>
      logged st' = [ErrorDownloadingGalleryHtml (Errorf ''cannot find html node for pictures'') ''u2''] \<and>
      downloadGalleryHTML noScriptEnv [''u2'', ''u3''] (startState\<lparr>calls := 1\<rparr>)
        = downloadGalleryHTML noScriptEnv [''u3''] st')"
proof -
  have a: "NewRequest noScriptEnv ''u2'' = None"
    and b: "Do noScriptEnv ''u2'' = Inr (''bytes'', None)"
    and c: "Parse noScriptEnv (''bytes'', None) = Inr \<lparr>scriptQuery = None, notFoundQuery = False\<rparr>"
    and sel: "\<not> selectsDone noScriptEnv k" for k
    by (simp_all add: noScriptEnv_def plainEnv_def)
  have d: "parseForPic (libs noScriptEnv) \<lparr>scriptQuery = None, notFoundQuery = False\<rparr>
     = Returns ([], Some (Errorf ''cannot find html node for pictures''))"
    by (simp add: parseForPic_def)
  have start: "downloadGalleryHTML noScriptEnv [] (startState\<lparr>calls := 1\<rparr>)
     = Returns (startState\<lparr>calls := 1\<rparr>)"
    by simp
  from parse_error_logs_once_and_continues
    [OF a b c d, of "[]" "startState\<lparr>calls := 1\<rparr>" "[''u3'']"]
  obtain st st' e where
    st: "downloadGalleryHTML noScriptEnv [] (startState\<lparr>calls := 1\<rparr>) = Returns st"
    and step: "fetchURL noScriptEnv ''u2'' st = Returns st'"
    and pics: "picChan st' = picChan st"
    and lg: "logged st' = logged st @ [ErrorDownloadingGalleryHtml e ''u2'']"
    and cont: "downloadGalleryHTML noScriptEnv ([] @ ''u2'' # [''u3'']) (startState\<lparr>calls := 1\<rparr>)
        = downloadGalleryHTML noScriptEnv [''u3''] st'"
    by blast
  from st have st_eq: "st = startState\<lparr>calls := 1\<rparr>" by simp
  have "st' = st\<lparr>calls := Suc (calls st),
      logged := logged st @
        [ErrorDownloadingGalleryHtml (Errorf ''cannot find html node for pictures'') ''u2'']\<rparr>"
    using step fetchURL_parse_error [OF a b c d, of st] sel by simp
  then have "logged st' = logged st @
      [ErrorDownloadingGalleryHtml (Errorf ''cannot find html node for pictures'') ''u2'']"
    by simp
  with lg have "e = Errorf ''cannot find html node for pictures''"
    by simp
  with step pics lg cont d show ?thesis
    by (simp add: st_eq startState_def)
qed

text \<open>
  Claim C7 says that for a page that signals missing content no error is logged. Where
  the token fires while the closure is still at work on the page, the caller of
  \<^verbatim>\<open>httpDo\<close> takes the \<^verbatim>\<open>ctx.Done()\<close> case, waits for the closure (which finds the page to be
  a not-found page and returns nil) and returns \<^verbatim>\<open>ctx.Err()\<close>; line 106 logs it as an
  error for that URL.
\<close>

theorem not_found_page_logs_cancellation:
  "parseForPic (libs cancelledEnv) errorPageDoc = Returns ([], None) \<and>
   fetchURL cancelledEnv ''u'' startState =
     Returns (startState\<lparr>calls := 1, logged := [ErrorDownloadingGalleryHtml Canceled ''u'']\<rparr>)"
  by (simp add: cancelledEnv_def errorPageEnv_def plainEnv_def errorPageDoc_def parseForPic_def
      fetchURL_def galleryClosure_def httpDo_def startState_def)

text \<open>
  Claim C7, amended: for a page that signals missing content (no usable script node, and
  the error page node present) \<^verbatim>\<open>parseForPic\<close> returns no Picture and no error, and the
  fetch stage pushes no Picture for the page; it logs nothing for the page unless the
  \<^verbatim>\<open>select\<close> of \<^verbatim>\<open>httpDo\<close> takes the cancellation case, and then the one line it logs is the
  cancellation error.
\<close>

theorem not_found_logs_only_cancellation:
  assumes "NewRequest env url = None" and "Do env url = Inr respBody"
    and "Parse env respBody = Inr doc"
    and "scriptQuery doc = None \<or> scriptQuery doc = Some None"
    and "notFoundQuery doc"
  shows "parseForPic (libs env) doc = Returns ([], None) \<and>
         (\<exists>st'. fetchURL env url st = Returns st' \<and>
            picChan st' = picChan st \<and>
            logged st' = logged st @
              (if selectsDone env (calls st)
               then [ErrorDownloadingGalleryHtml Canceled url] else []))"
proof -
  have nf: "parseForPic (libs env) doc = Returns ([], None)"
    using assms(4,5) by (rule parseForPic_error_page)
  from fetchURL_no_pictures [OF assms(1-3) nf, of st] nf show ?thesis by simp
qed

theorem not_found_logs_only_cancellation_witness:
  "parseForPic (libs errorPageEnv) errorPageDoc = Returns ([], None) \<and>
   (\<exists>st'. fetchURL errorPageEnv ''u'' startState = Returns st' \<and>
      picChan st' = [] \<and> logged st' = [])"
proof -
  have a: "NewRequest errorPageEnv ''u'' = None"
    and b: "Do errorPageEnv ''u'' = Inr (''bytes'', None)"
    and c: "Parse errorPageEnv (''bytes'', None) = Inr errorPageDoc"
    and sel: "\<not> selectsDone errorPageEnv k" for k
    by (simp_all add: errorPageEnv_def plainEnv_def)
  have d: "scriptQuery errorPageDoc = None \<or> scriptQuery errorPageDoc = Some None"
    and e: "notFoundQuery errorPageDoc"
    by (simp_all add: errorPageDoc_def)
  from not_found_logs_only_cancellation [OF a b c d e, of startState] sel
  show ?thesis by (simp add: startState_def)
qed

section \<open>httpDo\<close>

lemma httpDo_inv_init: "httpDo_inv fres httpDo_init"
  by (simp add: httpDo_inv_def httpDo_init_def)

lemma httpDo_inv_background:
  assumes "httpDo_inv fres st" and "\<not> background_done st"
  shows "httpDo_inv fres (st\<lparr>background_done := True, chan_c := chan_c st @ [fres]\<rparr>)"
proof (cases "caller st")
  case Select
  with assms show ?thesis by (simp add: httpDo_inv_def)
next
  case AwaitBackground
  with assms show ?thesis by (auto simp: httpDo_inv_def)
next
  case (Returned r)
  with assms show ?thesis by (simp add: httpDo_inv_def)
qed

lemma httpDo_inv_fire:
  assumes "httpDo_inv fres st"
  shows "httpDo_inv fres (st\<lparr>ctxDone := True\<rparr>)"
  using assms by (cases "caller st") (auto simp: httpDo_inv_def)

lemma httpDo_inv_caller:
  assumes "httpDo_inv fres st" and step: "httpDo_caller pick st = Some st'"
  shows "httpDo_inv fres st'"
proof (cases "caller st")
  case Select
  show ?thesis
  proof (cases "chan_c st")
    case Nil
    with Select step assms(1) show ?thesis
      by (auto simp: httpDo_inv_def httpDo_caller_def split: if_splits)
  next
    case (Cons err rest)
    with Select step assms(1) show ?thesis
      by (auto simp: httpDo_inv_def httpDo_caller_def httpDo_def split: if_splits)
  qed
next
  case AwaitBackground
  with step assms(1) show ?thesis
    by (cases "chan_c st") (auto simp: httpDo_inv_def httpDo_caller_def httpDo_def split: if_splits)
next
  case (Returned r)
  with step show ?thesis by (simp add: httpDo_caller_def)
qed

lemma httpDo_inv_exec:
  assumes "httpDo_inv fres st" and "httpDo_exec fres ev st = Some st'"
  shows "httpDo_inv fres st'"
proof (cases ev)
  case Background
  with assms(2) have "\<not> background_done st"
    and "st' = st\<lparr>background_done := True, chan_c := chan_c st @ [fres]\<rparr>"
    by (simp_all add: httpDo_exec_def split: if_splits)
  with assms(1) show ?thesis by (simp add: httpDo_inv_background)
next
  case Fire
  with assms(2) have "st' = st\<lparr>ctxDone := True\<rparr>"
    by (simp add: httpDo_exec_def)
  with assms(1) show ?thesis by (simp add: httpDo_inv_fire)
next
  case (Caller pick)
  with assms(2) have "httpDo_caller pick st = Some st'"
    by (simp add: httpDo_exec_def)
  with assms(1) show ?thesis by (rule httpDo_inv_caller)
qed

lemma httpDo_inv_run:
  "httpDo_inv fres st \<Longrightarrow> httpDo_run fres es st = Some st' \<Longrightarrow> httpDo_inv fres st'"
proof (induction es arbitrary: st)
  case Nil
  then show ?case by simp
next
  case (Cons ev es)
  then show ?case by (auto split: option.splits dest: httpDo_inv_exec)
qed

lemma httpDo_progress:
  assumes "httpDo_inv fres st"
  shows "\<exists>es' st' r. length es' \<le> 2 \<and> httpDo_run fres es' st = Some st' \<and> caller st' = Returned r"
proof (cases "caller st")
  case Select
  show ?thesis
  proof (cases "background_done st")
    case True
    with Select assms show ?thesis
      by (intro exI [of _ "[Caller False]"])
        (simp add: httpDo_inv_def httpDo_exec_def httpDo_caller_def)
  next
    case False
    with Select assms show ?thesis
      by (intro exI [of _ "[Background, Caller False]"])
        (simp add: httpDo_inv_def httpDo_exec_def httpDo_caller_def)
  qed
next
  case AwaitBackground
  show ?thesis
  proof (cases "background_done st")
    case True
    with AwaitBackground assms show ?thesis
      by (intro exI [of _ "[Caller False]"])
        (simp add: httpDo_inv_def httpDo_exec_def httpDo_caller_def)
  next
    case False
    with AwaitBackground assms show ?thesis
      by (intro exI [of _ "[Background, Caller False]"])
        (simp add: httpDo_inv_def httpDo_exec_def httpDo_caller_def)
  qed
next
  case (Returned r)
  then show ?thesis
    by (intro exI [of _ "[]"]) simp
qed

text \<open>
  Claim C8 decides the result of \<^verbatim>\<open>httpDo\<close> by which of the two events happens first. The
  \<^verbatim>\<open>select\<close> sees only which cases are ready when it runs, and where both are ready Go
  picks one at random. In the first run the closure has finished (with nil) before the
  token fires, and \<^verbatim>\<open>httpDo\<close> returns \<^verbatim>\<open>ctx.Err()\<close>; in the second the token fires before
  the closure finishes, and \<^verbatim>\<open>httpDo\<close> returns the closure's nil.
\<close>

theorem httpDo_both_ready_either_case:
  "httpDo_run None [Background, Fire, Caller True, Caller True] httpDo_init =
     Some \<lparr>caller = Returned (Some Canceled), background_done = True, chan_c = [],
           ctxDone = True, ready = Some (True, True), chosen = Some CaseDone\<rparr> \<and>
   httpDo_run None [Fire, Background, Caller False] httpDo_init =
     Some \<lparr>caller = Returned None, background_done = True, chan_c = [], ctxDone = True,
           ready = Some (True, True), chosen = Some CaseResult\<rparr>"
  by (simp add: httpDo_init_def httpDo_exec_def httpDo_caller_def)

text \<open>
  Claim C8, amended: in every interleaving, a call of \<^verbatim>\<open>httpDo\<close> that has returned has
  received the value of the closure from \<open>c\<close>, so the background round trip and the
  closure have finished; it returns \<^verbatim>\<open>ctx.Err()\<close> if its \<^verbatim>\<open>select\<close> took the cancellation
  case and the closure's result if it took the result case. The \<^verbatim>\<open>select\<close> takes the
  cancellation case when the token has fired and the result is not yet there, and the
  result case when the result is there and the token has not fired; when both are ready
  it may take either. The caller does return once the closure has finished: from every
  state at most two further steps (the end of the background goroutine, a step of the
  caller) lead to the return. Where the caller acts on the first of the two events before
  the other happens, the first event decides: token first, the call returns \<^verbatim>\<open>ctx.Err()\<close>
  after the closure's end; closure first, it returns the closure's result.
\<close>

theorem httpDo_returns_after_background:
  assumes "httpDo_run fres es httpDo_init = Some st"
  shows "(\<forall>r. caller st = Returned r \<longrightarrow>
            background_done st \<and> chan_c st = [] \<and>
            (\<exists>k. chosen st = Some k \<and> r = httpDo (k = CaseDone) fres)) \<and>
         (ready st = Some (True, False) \<longrightarrow> chosen st = Some CaseDone) \<and>
         (ready st = Some (False, True) \<longrightarrow> chosen st = Some CaseResult) \<and>
         (\<exists>es' st' r. length es' \<le> 2 \<and> httpDo_run fres es' st = Some st' \<and>
            caller st' = Returned r) \<and>
         (\<forall>p q. httpDo_run fres [Fire, Caller p, Background, Caller q] httpDo_init =
            Some \<lparr>caller = Returned (Some Canceled), background_done = True, chan_c = [],
                  ctxDone = True, ready = Some (True, False), chosen = Some CaseDone\<rparr>) \<and>
         (\<forall>p. httpDo_run fres [Background, Caller p] httpDo_init =
            Some \<lparr>caller = Returned fres, background_done = True, chan_c = [],
                  ctxDone = False, ready = Some (False, True), chosen = Some CaseResult\<rparr>)"
proof -
  have fire_first: "httpDo_run fres [Fire, Caller p, Background, Caller q] httpDo_init =
      Some \<lparr>caller = Returned (Some Canceled), background_done = True, chan_c = [],
            ctxDone = True, ready = Some (True, False), chosen = Some CaseDone\<rparr>" for p q
    by (simp add: httpDo_init_def httpDo_exec_def httpDo_caller_def)
  have result_first: "httpDo_run fres [Background, Caller p] httpDo_init =
      Some \<lparr>caller = Returned fres, background_done = True, chan_c = [],
            ctxDone = False, ready = Some (False, True), chosen = Some CaseResult\<rparr>" for p
    by (simp add: httpDo_init_def httpDo_exec_def httpDo_caller_def)
  have inv: "httpDo_inv fres st"
    using httpDo_inv_init assms by (rule httpDo_inv_run)
  have "background_done st \<and> chan_c st = [] \<and>
        (\<exists>k. chosen st = Some k \<and> r = httpDo (k = CaseDone) fres)"
    if "caller st = Returned r" for r
    using inv that by (auto simp: httpDo_inv_def)
  moreover have "ready st = Some (True, False) \<longrightarrow> chosen st = Some CaseDone"
    and "ready st = Some (False, True) \<longrightarrow> chosen st = Some CaseResult"
    using inv by (simp_all add: httpDo_inv_def)
  moreover note httpDo_progress [OF inv]
  ultimately have general:
    "(\<forall>r. caller st = Returned r \<longrightarrow>
            background_done st \<and> chan_c st = [] \<and>
            (\<exists>k. chosen st = Some k \<and> r = httpDo (k = CaseDone) fres)) \<and>
         (ready st = Some (True, False) \<longrightarrow> chosen st = Some CaseDone) \<and>
         (ready st = Some (False, True) \<longrightarrow> chosen st = Some CaseResult) \<and>
         (\<exists>es' st' r. length es' \<le> 2 \<and> httpDo_run fres es' st = Some st' \<and>
            caller st' = Returned r)"
    by blast
  from general fire_first result_first show ?thesis by simp
qed

theorem httpDo_returns_after_background_witness:
  "(\<exists>st. httpDo_run (Some (LibraryError ''reset'')) [Fire, Caller False, Background, Caller False]
            httpDo_init = Some st \<and>
      ready st = Some (True, False) \<and> chosen st = Some CaseDone \<and>
      caller st = Returned (Some Canceled) \<and> background_done st) \<and>
   (\<exists>st. httpDo_run (Some (LibraryError ''reset'')) [Background, Caller True] httpDo_init = Some st \<and>
      ready st = Some (False, True) \<and> chosen st = Some CaseResult \<and>
      caller st = Returned (Some (LibraryError ''reset'')) \<and> background_done st)"
proof -
  define st1 where "st1 = \<lparr>caller = Returned (Some Canceled), background_done = True,
      chan_c = [], ctxDone = True, ready = Some (True, False), chosen = Some CaseDone\<rparr>"
  define st2 where "st2 = \<lparr>caller = Returned (Some (LibraryError ''reset'')),
      background_done = True, chan_c = [], ctxDone = False, ready = Some (False, True),
      chosen = Some CaseResult\<rparr>"
  have run1: "httpDo_run (Some (LibraryError ''reset'')) [Fire, Caller False, Background, Caller False]
      httpDo_init = Some st1"
    by (simp add: st1_def httpDo_init_def httpDo_exec_def httpDo_caller_def)
  have run2: "httpDo_run (Some (LibraryError ''reset'')) [Background, Caller True] httpDo_init
      = Some st2"
    by (simp add: st2_def httpDo_init_def httpDo_exec_def httpDo_caller_def)
  have "ready st1 = Some (True, False)" and "caller st1 = Returned (Some Canceled)"
    by (simp_all add: st1_def)
  with httpDo_returns_after_background [OF run1]
  have one: "ready st1 = Some (True, False) \<and> chosen st1 = Some CaseDone \<and>
      caller st1 = Returned (Some Canceled) \<and> background_done st1"
    by blast
  have "ready st2 = Some (False, True)" and "caller st2 = Returned (Some (LibraryError ''reset''))"
    by (simp_all add: st2_def)
  with httpDo_returns_after_background [OF run2]
  have two: "ready st2 = Some (False, True) \<and> chosen st2 = Some CaseResult \<and>
      caller st2 = Returned (Some (LibraryError ''reset'')) \<and> background_done st2"
    by blast
  from run1 one run2 two show ?thesis by blast
qed

section \<open>The URL source\<close>

lemma chapterMajor_Cons [simp]:
  "chapterMajor (chap # rest) = urlConcept chap # urlConcept2 chap # chapterMajor rest"
  by (simp add: chapterMajor_def)

lemma chapterMajor_Nil [simp]: "chapterMajor [] = []"
  by (simp add: chapterMajor_def)









lemma gen_run_append:
  "gen_run es1 st = Some st1 \<Longrightarrow> gen_run (es1 @ es2) st = gen_run es2 st1"
  by (induction es1 arbitrary: st) (auto split: option.splits)







text \<open>
  Claim C2 says that after cancellation no push stays blocked on a full buffer. For the
  chapters 1 and 2 and no consumer, the goroutine of \<^verbatim>\<open>generateGalleryURLs\<close> fills the
  channel with three URLs and waits in the fourth send; the token fires; the goroutine
  still cannot move, and firing the token again changes nothing.
\<close>

theorem push_blocks_after_cancellation:
  "gen_run [Producer, Producer, Producer, Producer, Producer, Cancel] (generateGalleryURLs [1, 2])
     = Some stuckState \<and>
   ctx_done stuckState \<and> length (urls stuckState) = urlsCap \<and>
   gen_exec Producer stuckState = None \<and> gen_exec Cancel stuckState = Some stuckState"
  by (simp add: generateGalleryURLs_def gen_exec_def gen_producer_def urlsCap_def stuckState_def)


lemma gen_blocked:
  assumes "gen_pc st = SendConcept \<or> gen_pc st = SendConcept2" and "length (urls st) = urlsCap"
  shows "gen_exec Producer st = None"
  using assms by (auto simp: gen_exec_def gen_producer_def split: list.splits)

lemma gen_stays_blocked:
  assumes "gen_pc st = SendConcept \<or> gen_pc st = SendConcept2" and "length (urls st) = urlsCap"
    and "gen_run es st = Some st'" and "Receive \<notin> set es"
  shows "st' = st \<or> st' = st\<lparr>ctx_done := True\<rparr>"
  using assms
proof (induction es arbitrary: st)
  case Nil
  then show ?case by simp
next
  case (Cons ev es)
  show ?case
  proof (cases ev)
    case Producer
    with Cons.prems gen_blocked [OF Cons.prems(1,2)] show ?thesis by simp
  next
    case Receive
    with Cons.prems show ?thesis by simp
  next
    case Cancel
    with Cons.prems have run: "gen_run es (st\<lparr>ctx_done := True\<rparr>) = Some st'"
      by (simp add: gen_exec_def)
    have "st' = st\<lparr>ctx_done := True\<rparr> \<or> st' = st\<lparr>ctx_done := True\<rparr>\<lparr>ctx_done := True\<rparr>"
      using Cons.prems by (intro Cons.IH [OF _ _ run]) simp_all
    then show ?thesis by auto
  qed
qed

lemma gen_cancelled_exec:
  assumes "ctx_done st" and "gen_exec ev st = Some st'"
  shows "ctx_done st' \<and> length (sent st') + owed st' \<le> length (sent st) + owed st"
proof (cases ev)
  case Producer
  with assms have step: "gen_producer st = Some st'" by (simp add: gen_exec_def)
  show ?thesis
  proof (cases "gen_pc st")
    case LoopHead
    with step assms(1) show ?thesis
      by (cases "chapters_left st") (auto simp: gen_producer_def owed_def)
  next
    case SendConcept
    with step assms(1) show ?thesis
      by (cases "chapters_left st") (auto simp: gen_producer_def owed_def split: if_splits)
  next
    case SendConcept2
    with step assms(1) show ?thesis
      by (cases "chapters_left st") (auto simp: gen_producer_def owed_def split: if_splits)
  next
    case Finished
    with step show ?thesis by (simp add: gen_producer_def)
  qed
next
  case Receive
  with assms show ?thesis
    by (auto simp: gen_exec_def owed_def split: list.splits)
next
  case Cancel
  with assms show ?thesis
    by (auto simp: gen_exec_def owed_def)
qed

lemma gen_cancelled_run:
  "ctx_done st \<Longrightarrow> gen_run es st = Some st' \<Longrightarrow>
   ctx_done st' \<and> length (sent st') + owed st' \<le> length (sent st) + owed st"
proof (induction es arbitrary: st)
  case Nil
  then show ?case by simp
next
  case (Cons ev es)
  then obtain st1 where step: "gen_exec ev st = Some st1" and rest: "gen_run es st1 = Some st'"
    by (auto split: option.splits)
  from gen_cancelled_exec [OF Cons.prems(1) step]
  have a: "ctx_done st1" and b: "length (sent st1) + owed st1 \<le> length (sent st) + owed st"
    by simp_all
  from Cons.IH [OF a rest] b show ?case by simp
qed

lemma gen_cancelled_closes:
  assumes "ctx_done st" and "gen_wf st" and "length (urls st) + owed st \<le> urlsCap"
  shows "\<exists>n st'. n \<le> 3 \<and> gen_run (replicate n Producer) st = Some st' \<and>
           gen_pc st' = Finished \<and> urls_closed st'"
proof (cases "gen_pc st")
  case LoopHead
  with assms have "gen_run (replicate 1 Producer) st = Some (st\<lparr>gen_pc := Finished, urls_closed := True\<rparr>)"
    by (cases "chapters_left st") (simp_all add: gen_exec_def gen_producer_def)
  then show ?thesis
    by (intro exI [of _ "1::nat"] exI [of _ "st\<lparr>gen_pc := Finished, urls_closed := True\<rparr>"]) simp
next
  case SendConcept
  with assms obtain chap rest where cl: "chapters_left st = chap # rest"
    by (cases "chapters_left st") (auto simp: gen_wf_def)
  from SendConcept assms(3) have room: "length (urls st) + 2 \<le> urlsCap"
    by (simp add: owed_def)
  define st' where "st' = st\<lparr>gen_pc := Finished, chapters_left := rest,
      urls := urls st @ [urlConcept chap, urlConcept2 chap],
      sent := sent st @ [urlConcept chap, urlConcept2 chap], urls_closed := True\<rparr>"
  have "gen_run (replicate 3 Producer) st = Some st'"
    using SendConcept cl room assms(1)
    by (cases rest) (simp_all add: numeral_3_eq_3 gen_exec_def gen_producer_def st'_def)
  then show ?thesis
    by (intro exI [of _ "3::nat"] exI [of _ st']) (simp add: st'_def)
next
  case SendConcept2
  with assms obtain chap rest where cl: "chapters_left st = chap # rest"
    by (cases "chapters_left st") (auto simp: gen_wf_def)
  from SendConcept2 assms(3) have room: "length (urls st) + 1 \<le> urlsCap"
    by (simp add: owed_def)
  define st' where "st' = st\<lparr>gen_pc := Finished, chapters_left := rest,
      urls := urls st @ [urlConcept2 chap],
      sent := sent st @ [urlConcept2 chap], urls_closed := True\<rparr>"
  have "gen_run (replicate 2 Producer) st = Some st'"
    using SendConcept2 cl room assms(1)
    by (cases rest) (simp_all add: numeral_2_eq_2 gen_exec_def gen_producer_def st'_def)
  then show ?thesis
    by (intro exI [of _ "2::nat"] exI [of _ st']) (simp add: st'_def)
next
  case Finished
  with assms(2) have "gen_run (replicate 0 Producer) st = Some st \<and> urls_closed st"
    by (simp add: gen_wf_def)
  with Finished show ?thesis
    by (intro exI [of _ "0::nat"] exI [of _ st]) simp
qed


lemma push_blocked:
  assumes "length (buffered st) = picChanCap"
  shows "push_exec Push st = None"
  using assms by (simp add: push_exec_def push_step_def split: list.splits)

lemma push_stays_blocked:
  assumes "length (buffered st) = picChanCap" and "push_run es st = Some st'"
    and "Take \<notin> set es"
  shows "st' = st \<or> st' = st\<lparr>token_fired := True\<rparr>"
  using assms
proof (induction es arbitrary: st)
  case Nil
  then show ?case by simp
next
  case (Cons ev es)
  show ?case
  proof (cases ev)
    case Push
    with Cons.prems push_blocked [OF Cons.prems(1)] show ?thesis by simp
  next
    case Take
    with Cons.prems show ?thesis by simp
  next
    case Interrupt
    with Cons.prems have run: "push_run es (st\<lparr>token_fired := True\<rparr>) = Some st'"
      by (simp add: push_exec_def)
    have "st' = st\<lparr>token_fired := True\<rparr> \<or>
          st' = st\<lparr>token_fired := True\<rparr>\<lparr>token_fired := True\<rparr>"
      using Cons.prems by (intro Cons.IH [OF _ run]) simp_all
    then show ?thesis by auto
  qed
qed

lemma push_goes_through:
  assumes "to_push st = pic # rest" and "length (buffered st) < picChanCap"
  shows "push_exec Push st =
           Some (st\<lparr>to_push := rest, buffered := buffered st @ [pic],
                    pushed := pushed st @ [pic]\<rparr>)"
  using assms by (simp add: push_exec_def push_step_def)

lemma push_run_append:
  "push_run es1 st = Some st1 \<Longrightarrow> push_run (es1 @ es2) st = push_run es2 st1"
  by (induction es1 arbitrary: st) (auto split: option.splits)

text \<open>
  With a worker that takes each Picture out, every push goes through, fired token or not,
  and the Pictures pushed are the Pictures of the page in their order: the outcome
  \<open>galleryClosure\<close> gives.
\<close>

lemma push_all_when_drained:
  assumes "buffered st = []"
  shows "\<exists>es st'. push_run es st = Some st' \<and> to_push st' = [] \<and> buffered st' = [] \<and>
           pushed st' = pushed st @ to_push st \<and> taken st' = taken st @ to_push st \<and>
           token_fired st' = token_fired st"
  using assms
proof (induction pics \<equiv> "to_push st" arbitrary: st)
  case Nil
  then have "push_run [] st = Some st \<and> to_push st = []" by simp
  with Nil.prems show ?case
    by (intro exI [of _ "[]"] exI [of _ st]) simp
next
  case (Cons pic rest)
  define st1 where "st1 = st\<lparr>to_push := rest, buffered := [], pushed := pushed st @ [pic],
      taken := taken st @ [pic]\<rparr>"
  have first: "push_run [Push, Take] st = Some st1"
    using Cons.prems Cons.hyps(2) [symmetric]
    by (simp add: st1_def push_exec_def push_step_def picChanCap_def)
  have "rest = to_push st1" "buffered st1 = []" by (simp_all add: st1_def)
  from Cons.hyps(1) [OF this] obtain es st' where
    es: "push_run es st1 = Some st'" "to_push st' = []" "buffered st' = []"
      "pushed st' = pushed st1 @ to_push st1" "taken st' = taken st1 @ to_push st1"
      "token_fired st' = token_fired st1"
    by blast
  from push_run_append [OF first, of es] es(1)
  have "push_run ([Push, Take] @ es) st = Some st'" by simp
  moreover have "pushed st' = pushed st @ to_push st" "taken st' = taken st @ to_push st"
    "token_fired st' = token_fired st"
    using es(4-6) Cons.hyps(2) [symmetric] by (simp_all add: st1_def)
  ultimately show ?case using es(2,3) by blast
qed

text \<open>
  Claim C2, amended: no push into a relay buffer observes cancellation. A push of the URL
  producer or of the fetch stage into a full channel cannot proceed, cancelled or not, and
  without a consumer the producer stays where it is and pushes nothing (the URL producer
  closes nothing either); with room in the channel the fetch stage pushes the next Picture
  of the page also after the token has fired. The URL producer observes cancellation at
  the head of its loop only: there it closes the channel without pushing. So once the
  token has fired it pushes at most the URLs it still owes for the chapter it is in, two
  at most; and where the channel has room for them, it closes the channel within three
  steps of its own.
\<close>

theorem cancelled_producer_stops_at_loop_head:
  "(\<forall>st. (gen_pc st = SendConcept \<or> gen_pc st = SendConcept2) \<and> length (urls st) = urlsCap \<longrightarrow>
       gen_exec Producer st = None \<and>
       (\<forall>es st'. Receive \<notin> set es \<and> gen_run es st = Some st' \<longrightarrow>
          gen_pc st' = gen_pc st \<and> sent st' = sent st \<and> urls_closed st' = urls_closed st)) \<and>
   (\<forall>st. ctx_done st \<and> gen_pc st = LoopHead \<longrightarrow>
       gen_exec Producer st = Some (st\<lparr>gen_pc := Finished, urls_closed := True\<rparr>)) \<and>
   (\<forall>st es st'. ctx_done st \<and> gen_run es st = Some st' \<longrightarrow>
       length (sent st') \<le> length (sent st) + owed st \<and> owed st \<le> 2) \<and>
   (\<forall>st. ctx_done st \<and> gen_wf st \<and> length (urls st) + owed st \<le> urlsCap \<longrightarrow>
       (\<exists>n st'. n \<le> 3 \<and> gen_run (replicate n Producer) st = Some st' \<and>
          gen_pc st' = Finished \<and> urls_closed st')) \<and>
   (\<forall>st. length (buffered st) = picChanCap \<longrightarrow>
       push_exec Push st = None \<and>
       (\<forall>es st'. Take \<notin> set es \<and> push_run es st = Some st' \<longrightarrow>
          to_push st' = to_push st \<and> pushed st' = pushed st \<and> buffered st' = buffered st)) \<and>
   (\<forall>st pic rest. to_push st = pic # rest \<and> length (buffered st) < picChanCap \<longrightarrow>
       push_exec Push st =
         Some (st\<lparr>to_push := rest, buffered := buffered st @ [pic],
                  pushed := pushed st @ [pic]\<rparr>))"
proof -
  have a: "gen_exec Producer st = None \<and>
       (\<forall>es st'. Receive \<notin> set es \<and> gen_run es st = Some st' \<longrightarrow>
          gen_pc st' = gen_pc st \<and> sent st' = sent st \<and> urls_closed st' = urls_closed st)"
    if "gen_pc st = SendConcept \<or> gen_pc st = SendConcept2" and "length (urls st) = urlsCap" for st
  proof -
    have "gen_pc st' = gen_pc st \<and> sent st' = sent st \<and> urls_closed st' = urls_closed st"
      if "Receive \<notin> set es" and "gen_run es st = Some st'" for es st'
      using gen_stays_blocked [OF \<open>gen_pc st = SendConcept \<or> gen_pc st = SendConcept2\<close>
          \<open>length (urls st) = urlsCap\<close> that(2,1)]
      by auto
    with gen_blocked [OF that] show ?thesis by blast
  qed
  have b: "gen_exec Producer st = Some (st\<lparr>gen_pc := Finished, urls_closed := True\<rparr>)"
    if "ctx_done st" and "gen_pc st = LoopHead" for st
    using that by (cases "chapters_left st") (simp_all add: gen_exec_def gen_producer_def)
  have c: "length (sent st') \<le> length (sent st) + owed st \<and> owed st \<le> 2"
    if "ctx_done st" and "gen_run es st = Some st'" for st es st'
  proof -
    from gen_cancelled_run [OF that] have "length (sent st') \<le> length (sent st) + owed st"
      by simp
    moreover have "owed st \<le> 2"
      by (cases "gen_pc st") (simp_all add: owed_def)
    ultimately show ?thesis by simp
  qed
  have d: "\<exists>n st'. n \<le> 3 \<and> gen_run (replicate n Producer) st = Some st' \<and>
          gen_pc st' = Finished \<and> urls_closed st'"
    if "ctx_done st" and "gen_wf st" and "length (urls st) + owed st \<le> urlsCap" for st
    using that by (rule gen_cancelled_closes)
  have e: "push_exec Push st = None \<and>
       (\<forall>es st'. Take \<notin> set es \<and> push_run es st = Some st' \<longrightarrow>
          to_push st' = to_push st \<and> pushed st' = pushed st \<and> buffered st' = buffered st)"
    if "length (buffered st) = picChanCap" for st
  proof -
    have "to_push st' = to_push st \<and> pushed st' = pushed st \<and> buffered st' = buffered st"
      if "Take \<notin> set es" and "push_run es st = Some st'" for es st'
      using push_stays_blocked [OF \<open>length (buffered st) = picChanCap\<close> that(2,1)] by auto
    with push_blocked [OF that] show ?thesis by blast
  qed
  have f: "push_exec Push st =
         Some (st\<lparr>to_push := rest, buffered := buffered st @ [pic],
                  pushed := pushed st @ [pic]\<rparr>)"
    if "to_push st = pic # rest" and "length (buffered st) < picChanCap" for st pic rest
    using that by (rule push_goes_through)
  have urlPart:
    "(\<forall>st. (gen_pc st = SendConcept \<or> gen_pc st = SendConcept2) \<and> length (urls st) = urlsCap \<longrightarrow>
       gen_exec Producer st = None \<and>
       (\<forall>es st'. Receive \<notin> set es \<and> gen_run es st = Some st' \<longrightarrow>
          gen_pc st' = gen_pc st \<and> sent st' = sent st \<and> urls_closed st' = urls_closed st)) \<and>
     (\<forall>st. ctx_done st \<and> gen_pc st = LoopHead \<longrightarrow>
       gen_exec Producer st = Some (st\<lparr>gen_pc := Finished, urls_closed := True\<rparr>)) \<and>
     (\<forall>st es st'. ctx_done st \<and> gen_run es st = Some st' \<longrightarrow>
       length (sent st') \<le> length (sent st) + owed st \<and> owed st \<le> 2) \<and>
     (\<forall>st. ctx_done st \<and> gen_wf st \<and> length (urls st) + owed st \<le> urlsCap \<longrightarrow>
       (\<exists>n st'. n \<le> 3 \<and> gen_run (replicate n Producer) st = Some st' \<and>
          gen_pc st' = Finished \<and> urls_closed st'))"
    using a b c d by blast
  have fullPics: "\<forall>st. length (buffered st) = picChanCap \<longrightarrow>
       push_exec Push st = None \<and>
       (\<forall>es st'. Take \<notin> set es \<and> push_run es st = Some st' \<longrightarrow>
          to_push st' = to_push st \<and> pushed st' = pushed st \<and> buffered st' = buffered st)"
    by (intro allI impI) (rule e)
  have roomPics: "\<forall>st pic rest. to_push st = pic # rest \<and> length (buffered st) < picChanCap \<longrightarrow>
       push_exec Push st =
         Some (st\<lparr>to_push := rest, buffered := buffered st @ [pic],
                  pushed := pushed st @ [pic]\<rparr>)"
    by (intro allI impI, elim conjE, rule f)
  from urlPart fullPics roomPics show ?thesis
    by (elim conjE) (intro conjI; assumption)
qed

theorem cancelled_producer_stops_at_loop_head_witness:
  "(gen_pc stuckState = SendConcept2 \<and> length (urls stuckState) = urlsCap \<and>
    gen_exec Producer stuckState = None \<and>
    gen_run [Producer] (stuckState\<lparr>gen_pc := LoopHead\<rparr>) =
      Some (stuckState\<lparr>gen_pc := Finished, urls_closed := True\<rparr>)) \<and>
   ctx_done stuckState \<and> owed stuckState = 1 \<and>
   (\<exists>st'. gen_run [Receive, Producer, Producer] stuckState = Some st' \<and>
      gen_pc st' = Finished \<and> urls_closed st' \<and> length (sent st') = 4 \<and>
      length (sent st') \<le> length (sent stuckState) + owed stuckState) \<and>
   token_fired fullPicChan \<and> length (buffered fullPicChan) = picChanCap \<and>
   push_exec Push fullPicChan = None \<and>
   push_run [Take, Push] fullPicChan =
     Some (fullPicChan\<lparr>to_push := [], buffered := replicate 9 picA @ [picC],
             pushed := replicate 10 picA @ [picC], taken := [picA]\<rparr>)"
proof -
  note all = cancelled_producer_stops_at_loop_head
  note urlFull = all [THEN conjunct1, rule_format]
  note urlHead = all [THEN conjunct2, THEN conjunct1, rule_format]
  note urlOwed = all [THEN conjunct2, THEN conjunct2, THEN conjunct1, rule_format]
  note picFull = all [THEN conjunct2, THEN conjunct2, THEN conjunct2, THEN conjunct2,
      THEN conjunct1, rule_format]
  note picRoom = all [THEN conjunct2, THEN conjunct2, THEN conjunct2, THEN conjunct2,
      THEN conjunct2, rule_format]
  define st' where "st' = stuckState\<lparr>gen_pc := Finished, chapters_left := [],
      urls := [urlConcept2 1, urlConcept 2, urlConcept2 2], urls_closed := True,
      sent := [urlConcept 1, urlConcept2 1, urlConcept 2, urlConcept2 2],
      delivered := [urlConcept 1]\<rparr>"
  have pc: "gen_pc stuckState = SendConcept2" and full: "length (urls stuckState) = urlsCap"
    and fired: "ctx_done stuckState" and ow: "owed stuckState = 1"
    by (simp_all add: stuckState_def urlsCap_def owed_def)
  from urlFull [of stuckState] pc full have blocked: "gen_exec Producer stuckState = None"
    by simp
  have "ctx_done (stuckState\<lparr>gen_pc := LoopHead\<rparr>) \<and> gen_pc (stuckState\<lparr>gen_pc := LoopHead\<rparr>) = LoopHead"
    by (simp add: stuckState_def)
  then have "gen_exec Producer (stuckState\<lparr>gen_pc := LoopHead\<rparr>) =
      Some (stuckState\<lparr>gen_pc := LoopHead\<rparr>\<lparr>gen_pc := Finished, urls_closed := True\<rparr>)"
    by (rule urlHead)
  then have head: "gen_run [Producer] (stuckState\<lparr>gen_pc := LoopHead\<rparr>) =
      Some (stuckState\<lparr>gen_pc := Finished, urls_closed := True\<rparr>)"
    by simp
  have run: "gen_run [Receive, Producer, Producer] stuckState = Some st'"
    by (simp add: st'_def stuckState_def gen_exec_def gen_producer_def urlsCap_def)
  from fired run have "ctx_done stuckState \<and> gen_run [Receive, Producer, Producer] stuckState = Some st'"
    by simp
  from urlOwed [OF this] have "length (sent st') \<le> length (sent stuckState) + owed stuckState"
    by simp
  moreover have "gen_pc st' = Finished" "urls_closed st'" "length (sent st') = 4"
    by (simp_all add: st'_def)
  ultimately have urlSide: "(gen_pc stuckState = SendConcept2 \<and> length (urls stuckState) = urlsCap \<and>
    gen_exec Producer stuckState = None \<and>
    gen_run [Producer] (stuckState\<lparr>gen_pc := LoopHead\<rparr>) =
      Some (stuckState\<lparr>gen_pc := Finished, urls_closed := True\<rparr>)) \<and>
   ctx_done stuckState \<and> owed stuckState = 1 \<and>
   (\<exists>st'. gen_run [Receive, Producer, Producer] stuckState = Some st' \<and>
      gen_pc st' = Finished \<and> urls_closed st' \<and> length (sent st') = 4 \<and>
      length (sent st') \<le> length (sent stuckState) + owed stuckState)"
    using pc full blocked head fired ow run by blast
  have tf: "token_fired fullPicChan" and pfull: "length (buffered fullPicChan) = picChanCap"
    by (simp_all add: fullPicChan_def picChanCap_def)
  from picFull [OF pfull] have pblocked: "push_exec Push fullPicChan = None"
    by simp
  have taken1: "push_exec Take fullPicChan =
      Some (fullPicChan\<lparr>buffered := replicate 9 picA, taken := [picA]\<rparr>)"
    by (simp add: fullPicChan_def push_exec_def numeral_eq_Suc)
  have "to_push (fullPicChan\<lparr>buffered := replicate 9 picA, taken := [picA]\<rparr>) = picC # [] \<and>
      length (buffered (fullPicChan\<lparr>buffered := replicate 9 picA, taken := [picA]\<rparr>)) < picChanCap"
    by (simp add: fullPicChan_def picChanCap_def)
  then have "push_exec Push (fullPicChan\<lparr>buffered := replicate 9 picA, taken := [picA]\<rparr>) =
      Some (fullPicChan\<lparr>buffered := replicate 9 picA, taken := [picA]\<rparr>
              \<lparr>to_push := [],
               buffered := buffered (fullPicChan\<lparr>buffered := replicate 9 picA, taken := [picA]\<rparr>) @ [picC],
               pushed := pushed (fullPicChan\<lparr>buffered := replicate 9 picA, taken := [picA]\<rparr>) @ [picC]\<rparr>)"
    by (rule picRoom)
  with taken1 have prun: "push_run [Take, Push] fullPicChan =
     Some (fullPicChan\<lparr>to_push := [], buffered := replicate 9 picA @ [picC],
             pushed := replicate 10 picA @ [picC], taken := [picA]\<rparr>)"
    by (simp add: fullPicChan_def)
  from urlSide tf pfull pblocked prun show ?thesis
    by (elim conjE) (intro conjI; assumption)
qed

section \<open>The download stage\<close>

lemma downloadPic_loop_drains:
  assumes "\<forall>k. \<not> ctxPoll env k"
  shows "received (downloadPic_loop env got pics st) = got @ pics \<and>
         remaining (downloadPic_loop env got pics st) = []"
  using assms by (induction pics arbitrary: got st) simp_all

lemma downloadPic_drains:
  assumes "\<forall>k. \<not> ctxPoll env k" and "Mkdir env i = None \<or> Mkdir env i = Some ErrExist"
  shows "received (downloadPic env i pics st) = pics \<and> remaining (downloadPic env i pics st) = []"
  using assms(2) downloadPic_loop_drains [OF assms(1), of "[]" pics st]
  by (auto simp: downloadPic_def)

lemma mainWorkers_first_takes_all:
  assumes "\<forall>k. \<not> ctxPoll env k" and "\<forall>i. Mkdir env i = None \<or> Mkdir env i = Some ErrExist"
  shows "fst (mainWorkers env i (Suc n) pics st) = pics # replicate n []"
proof (induction n arbitrary: i pics st)
  case 0
  from downloadPic_drains [OF assms(1), of i pics st] assms(2)
  show ?case by (simp add: Let_def)
next
  case (Suc n)
  from downloadPic_drains [OF assms(1), of i pics st] assms(2)
  have r: "received (downloadPic env i pics st) = pics" "remaining (downloadPic env i pics st) = []"
    by simp_all
  have "fst (mainWorkers env (Suc i) (Suc n) [] (after (downloadPic env i pics st))) = [] # replicate n []"
    by (rule Suc.IH)
  then show ?case
    by (simp add: Let_def r split: prod.splits)
qed

text \<open>
  Claim C1 says that the five workers drain the Picture stream concurrently. \<^verbatim>\<open>main\<close>
  calls \<^verbatim>\<open>downloadPic\<close> without \<^verbatim>\<open>go\<close>: the first call returns only when the channel is
  closed and empty, so it receives every Picture, and the four calls after it find the
  channel closed and receive nothing.
\<close>

theorem sequential_calls_first_takes_all:
  "fst (mainPool plainEnv [picA, picB, picC] startState) = [[picA, picB, picC], [], [], [], []]"
proof -
  have a: "\<forall>k. \<not> ctxPoll plainEnv k" by (simp add: plainEnv_def)
  have b: "\<forall>i. Mkdir plainEnv i = None \<or> Mkdir plainEnv i = Some ErrExist"
    by (simp add: plainEnv_def)
  have w: "worker = Suc 4" by (simp add: worker_def)
  have r: "replicate 4 ([] :: Picture list) = [[], [], [], []]"
    by (simp add: numeral_eq_Suc)
  have "fst (mainWorkers plainEnv 0 (Suc 4) [picA, picB, picC] startState)
          = [picA, picB, picC] # replicate 4 []"
    using a b by (rule mainWorkers_first_takes_all)
  then show ?thesis
    unfolding mainPool_def w r .
qed


end
